theory Spec2Isabelle
  imports Complex_Main "HOL-Library.Char_ord" "HOL-Library.List_Lexorder" "HOL-Library.Multiset"
begin

section \<open>Cross-validation diagnostics of bofire (bofire/models/diagnostics.py)\<close>

text \<open>
  The module holds the observed and predicted values of the folds of a cross-validation,
  checks them when a fold (\<open>CvResult\<close>) or a collection of folds (\<open>CvResults\<close>) is built,
  and hands them to metric functions of sklearn, scipy and numpy. The embedding keeps the
  module's own control flow; the statistical functions of those libraries are a parameter
  of the model (the record \<open>library\<close>), and the two pandas operations the module relies on
  (\<open>len\<close> and \<open>concat\<close>) are written out on a small model of a Series and a DataFrame.
\<close>

subsection \<open>Values, Series and DataFrames\<close>

text \<open>
  An element of a Series or a DataFrame: a number, the float NaN, or a string that is not
  the text of a number.
\<close>

datatype cell = Num real | NaN | Str string

text \<open>A Series is its index labels paired with its values; \<open>len\<close> is the number of pairs.\<close>

type_synonym 'a series = "(int \<times> 'a) list"

definition series_values :: "'a series \<Rightarrow> 'a list" where
  "series_values s = map snd s"

definition series_index :: "'a series \<Rightarrow> int list" where
  "series_index s = map fst s"

text \<open>The default index of pandas: \<open>RangeIndex(0, n)\<close>.\<close>

definition range_index :: "nat \<Rightarrow> int list" where
  "range_index n = map int [0..<n]"

text \<open>\<open>pd.Series(values)\<close>: the values under the default index.\<close>

definition make_series :: "'a list \<Rightarrow> 'a series" where
  "make_series vs = zip (range_index (length vs)) vs"

text \<open>
  A DataFrame is its row index and its columns in order, each a label with the values of
  the column. Labels may repeat, as pandas allows; \<open>len\<close> is the number of rows.
\<close>

record dataframe =
  frame_index :: "int list"
  frame_columns :: "(string \<times> cell list) list"

definition columns :: "dataframe \<Rightarrow> string list" where
  "columns df = map fst (frame_columns df)"

definition frame_len :: "dataframe \<Rightarrow> nat" where
  "frame_len df = length (frame_index df)"

subsection \<open>Errors\<close>

text \<open>
  Every failure of the module is a \<open>ValueError\<close>; the constructors are the kinds the
  specification tells apart, with the fields the message of the source names.
  \<open>ShapeMismatch a n b k\<close> is the message "a has length n whereas b has length k".
  pydantic reports the failures of a construction as one list, so a failing computation
  returns the list of its errors.
\<close>

datatype error =
    ShapeMismatch string nat string nat
  | NotNumeric string
  | EmptyCollection
  | KeyMismatch
  | FieldPresenceMismatch string
  | ColumnMismatch
  | InsufficientSamples
  | PandasError string

type_synonym 'a result = "error list + 'a"

definition errors_of :: "'a result \<Rightarrow> error list" where
  "errors_of r = (case r of Inl es \<Rightarrow> es | Inr _ \<Rightarrow> [])"

subsection \<open>The metric identifiers\<close>

text \<open>
  Modelled from the spec: the enumeration \<open>RegressionMetricsEnum\<close> of bofire/utils/enum.py,
  "an enumerated, closed set of named regression metrics MAE, MSD, R2, MAPE, PEARSON,
  SPEARMAN, FISHER", and the \<open>name\<close> of each member.
\<close>

datatype RegressionMetricsEnum = MAE | MSD | R2 | MAPE | PEARSON | SPEARMAN | FISHER

fun metric_name :: "RegressionMetricsEnum \<Rightarrow> string" where
  "metric_name MAE = ''MAE''"
| "metric_name MSD = ''MSD''"
| "metric_name R2 = ''R2''"
| "metric_name MAPE = ''MAPE''"
| "metric_name PEARSON = ''PEARSON''"
| "metric_name SPEARMAN = ''SPEARMAN''"
| "metric_name FISHER = ''FISHER''"

subsection \<open>The numerical libraries\<close>

text \<open>
  The functions of sklearn, scipy and numpy the module calls, as a parameter: \<open>'f\<close> is
  what such a call yields (a float). \<open>pearsonr\<close> and \<open>spearmanr\<close> stand for the first
  component of what scipy returns, \<open>fisher_exact\<close> for the second (the p-value).
  A call is taken to return. Where a library raises instead, as sklearn does on arrays
  without elements, the model does not follow it; the properties below that speak of the
  value of a call are about folds of more than one sample, or name the call whose value
  they mean.
\<close>

datatype alternative = TwoSided | Less | Greater

record 'f library =
  mean_absolute_error :: "cell list \<Rightarrow> cell list \<Rightarrow> 'f"
  mean_absolute_percentage_error :: "cell list \<Rightarrow> cell list \<Rightarrow> 'f"
  mean_squared_error :: "cell list \<Rightarrow> cell list \<Rightarrow> 'f"
  r2_score :: "cell list \<Rightarrow> cell list \<Rightarrow> 'f"
  pearsonr :: "cell list \<Rightarrow> cell list \<Rightarrow> 'f"
  spearmanr :: "cell list \<Rightarrow> cell list \<Rightarrow> 'f"
  fisher_exact :: "int list list \<Rightarrow> alternative \<Rightarrow> 'f"
  argsort :: "cell list \<Rightarrow> nat list"

subsection \<open>The metric functions\<close>

text \<open>
  The private functions \<open>_mean_absolute_error\<close>, ... of the source, written with the
  prefix \<open>m\<close> in place of the leading underscore. Each takes the observed values, the
  predicted values and the optional standard deviation.
\<close>

definition m_mean_absolute_error ::
  "'f library \<Rightarrow> cell list \<Rightarrow> cell list \<Rightarrow> cell series option \<Rightarrow> 'f" where
  "m_mean_absolute_error L obs pred sd = mean_absolute_error L obs pred"

definition m_mean_squared_error ::
  "'f library \<Rightarrow> cell list \<Rightarrow> cell list \<Rightarrow> cell series option \<Rightarrow> 'f" where
  "m_mean_squared_error L obs pred sd = mean_squared_error L obs pred"

definition m_mean_absolute_percentage_error ::
  "'f library \<Rightarrow> cell list \<Rightarrow> cell list \<Rightarrow> cell series option \<Rightarrow> 'f" where
  "m_mean_absolute_percentage_error L obs pred sd = mean_absolute_percentage_error L obs pred"

definition m_r2_score ::
  "'f library \<Rightarrow> cell list \<Rightarrow> cell list \<Rightarrow> cell series option \<Rightarrow> 'f" where
  "m_r2_score L obs pred sd = r2_score L obs pred"

definition m_pearson ::
  "'f library \<Rightarrow> cell list \<Rightarrow> cell list \<Rightarrow> cell series option \<Rightarrow> 'f" where
  "m_pearson L obs pred sd = pearsonr L pred obs"

definition m_spearman ::
  "'f library \<Rightarrow> cell list \<Rightarrow> cell list \<Rightarrow> cell series option \<Rightarrow> 'f" where
  "m_spearman L obs pred sd = spearmanr L pred obs"

text \<open>
  Python's slice \<open>xs[start:]\<close>: a negative start counts from the end, and a start beyond
  either end is clipped. In particular \<open>xs[-0:]\<close> is \<open>xs[0:]\<close>, the whole list.
\<close>

definition slice_from :: "int \<Rightarrow> 'a list \<Rightarrow> 'a list" where
  "slice_from start xs =
     (let n = int (length xs);
          s = (if start < 0 then max (start + n) 0 else min start n)
      in drop (nat s) xs)"

definition m_fisher_exact_test_p ::
  "'f library \<Rightarrow> cell list \<Rightarrow> cell list \<Rightarrow> cell series option \<Rightarrow> 'f" where
  "m_fisher_exact_test_p L obs pred sd =
     (let n_half = int (length obs) div 2;
          top_obs = slice_from (- n_half) (argsort L obs);
          top_est = slice_from (- n_half) (argsort L pred);
          tp = int (card (set top_est \<inter> set top_obs));
          fp = n_half - tp;
          fn = n_half - tp;
          tn = (int (length obs) - n_half) - (n_half - tp);
          table = [[tp, fp], [fn, tn]]
      in fisher_exact L table Greater)"

text \<open>The registry \<open>metrics\<close>.\<close>

fun metrics ::
  "'f library \<Rightarrow> RegressionMetricsEnum \<Rightarrow> cell list \<Rightarrow> cell list \<Rightarrow> cell series option \<Rightarrow> 'f"
where
  "metrics L MAE = m_mean_absolute_error L"
| "metrics L MSD = m_mean_squared_error L"
| "metrics L R2 = m_r2_score L"
| "metrics L MAPE = m_mean_absolute_percentage_error L"
| "metrics L PEARSON = m_pearson L"
| "metrics L SPEARMAN = m_spearman L"
| "metrics L FISHER = m_fisher_exact_test_p L"

subsection \<open>One fold: CvResult\<close>

record cvresult =
  key :: string
  observed :: "cell series"
  predicted :: "cell series"
  standard_deviation :: "cell series option"
  labcodes :: "string series option"
  X :: "dataframe option"

text \<open>
  Modelled from the spec: \<open>is_numeric\<close> of bofire/domain/util.py, "entirely numeric (every
  element convertible to a real number; fails otherwise)".
\<close>

fun to_real :: "cell \<Rightarrow> real option" where
  "to_real (Num r) = Some r"
| "to_real NaN = None"
| "to_real (Str s) = None"

definition is_numeric :: "cell series \<Rightarrow> bool" where
  "is_numeric v = list_all (\<lambda>c. to_real c \<noteq> None) (series_values v)"

text \<open>
  The root validator \<open>validate_shapes\<close> runs before the validators of the fields
  (\<open>pre=True\<close>) and its failure ends the construction.
\<close>

definition validate_shapes :: "cvresult \<Rightarrow> cvresult result" where
  "validate_shapes vals =
     (if \<not> length (predicted vals) = length (observed vals)
      then Inl [ShapeMismatch ''predicted'' (length (predicted vals))
                  ''observed'' (length (observed vals))]
      else if standard_deviation vals \<noteq> None \<and>
              \<not> length (predicted vals) = length (the (standard_deviation vals))
      then Inl [ShapeMismatch ''predicted'' (length (predicted vals))
                  ''standard_deviation'' (length (the (standard_deviation vals)))]
      else if labcodes vals \<noteq> None \<and>
              \<not> length (predicted vals) = length (the (labcodes vals))
      then Inl [ShapeMismatch ''predicted'' (length (predicted vals))
                  ''labcodes'' (length (the (labcodes vals)))]
      else if X vals \<noteq> None \<and>
              \<not> length (predicted vals) = frame_len (the (X vals))
      then Inl [ShapeMismatch ''predicted'' (length (predicted vals))
                  ''X'' (frame_len (the (X vals)))]
      else Inr vals)"

definition validate_observed :: "cell series \<Rightarrow> cell series result" where
  "validate_observed v = (if \<not> is_numeric v then Inl [NotNumeric ''observed''] else Inr v)"

definition validate_predicted :: "cell series \<Rightarrow> cell series result" where
  "validate_predicted v = (if \<not> is_numeric v then Inl [NotNumeric ''predicted''] else Inr v)"

definition validate_standard_deviation :: "cell series option \<Rightarrow> cell series option result" where
  "validate_standard_deviation v =
     (if v \<noteq> None \<and> \<not> is_numeric (the v)
      then Inl [NotNumeric ''standard_deviation''] else Inr v)"

text \<open>
  The construction \<open>CvResult(key=..., observed=..., ...)\<close>: the root validator, then the
  validators of the fields in the order of the fields, whose errors pydantic collects.
\<close>

definition CvResult_init :: "cvresult \<Rightarrow> cvresult result" where
  "CvResult_init vals =
     (case validate_shapes vals of
        Inl es \<Rightarrow> Inl es
      | Inr vs \<Rightarrow>
          (let es = errors_of (validate_observed (observed vs))
                  @ errors_of (validate_predicted (predicted vs))
                  @ errors_of (validate_standard_deviation (standard_deviation vs))
           in if es = [] then Inr vs else Inl es))"

definition n_samples :: "cvresult \<Rightarrow> nat" where
  "n_samples r = length (observed r)"

definition CvResult_get_metric :: "'f library \<Rightarrow> cvresult \<Rightarrow> RegressionMetricsEnum \<Rightarrow> 'f result" where
  "CvResult_get_metric L r metric =
     (if n_samples r = 1 then Inl [InsufficientSamples]
      else Inr (metrics L metric (series_values (observed r)) (series_values (predicted r))
                  (standard_deviation r)))"

subsection \<open>Concatenation in pandas\<close>

text \<open>
  \<open>pd.concat(objs, ignore_index=True)\<close> on Series: objects that are \<open>None\<close> are dropped,
  the values are put one after the other and the result gets the default index. With no
  object left it fails.
\<close>

definition pd_concat_series :: "'a series option list \<Rightarrow> 'a series result" where
  "pd_concat_series objs =
     (let present = map the (filter (\<lambda>obj. obj \<noteq> None) objs)
      in if present = [] then Inl [PandasError ''No objects to concatenate'']
         else Inr (make_series (concat (map series_values present))))"

text \<open>
  On DataFrames the rows are put one after the other and the columns are aligned on their
  labels. When every frame has the column labels of the first one, in the same order, the
  columns are joined by position. Otherwise the result has the union of the labels in the
  order of their first appearance, and each frame is re-indexed to it, a label that a
  frame lacks giving NaN; re-indexing needs the labels of each frame to be unique, and
  pandas fails when they are not.
\<close>

definition union_labels :: "string list list \<Rightarrow> string list" where
  "union_labels ls = foldl (\<lambda>acc l. acc @ filter (\<lambda>c. c \<notin> set acc) l) [] ls"

definition column_of :: "dataframe \<Rightarrow> string \<Rightarrow> cell list" where
  "column_of df c =
     (case map_of (frame_columns df) c of
        Some vs \<Rightarrow> vs
      | None \<Rightarrow> replicate (frame_len df) NaN)"

definition pd_concat_frames :: "dataframe option list \<Rightarrow> dataframe result" where
  "pd_concat_frames objs =
     (let dfs = map the (filter (\<lambda>obj. obj \<noteq> None) objs)
      in if dfs = [] then Inl [PandasError ''No objects to concatenate'']
         else
           (let n = sum_list (map frame_len dfs);
                first = columns (hd dfs)
            in if list_all (\<lambda>df. columns df = first) dfs
               then Inr \<lparr>frame_index = range_index n,
                         frame_columns =
                           map (\<lambda>j. (first ! j, concat (map (\<lambda>df. snd (frame_columns df ! j)) dfs)))
                             [0..<length first]\<rparr>
               else if list_all (\<lambda>df. distinct (columns df)) dfs
               then Inr \<lparr>frame_index = range_index n,
                         frame_columns =
                           map (\<lambda>c. (c, concat (map (\<lambda>df. column_of df c) dfs)))
                             (union_labels (map columns dfs))\<rparr>
               else Inl [PandasError ''Reindexing only valid with uniquely valued Index objects'']))"

subsection \<open>The folds of a run: CvResults\<close>

record cvresults =
  results :: "cvresult list"

text \<open>
  The validator of \<open>results\<close>. Each loop of the source raises at the first element that
  fails its test, so a loop fails exactly when some element fails the test.
\<close>

definition validate_results :: "cvresult list \<Rightarrow> cvresult list result" where
  "validate_results v =
     (if length v \<le> 1 then Inl [EmptyCollection]
      else if list_ex (\<lambda>i. key i \<noteq> key (hd v)) v then Inl [KeyMismatch]
      else if list_ex (\<lambda>i. (standard_deviation (hd v) \<noteq> None) \<noteq> (standard_deviation i \<noteq> None)) v
      then Inl [FieldPresenceMismatch ''standard_deviation'']
      else if list_ex (\<lambda>i. (labcodes (hd v) \<noteq> None) \<noteq> (labcodes i \<noteq> None)) v
      then Inl [FieldPresenceMismatch ''labcodes'']
      else if list_ex (\<lambda>i. (X (hd v) \<noteq> None) \<noteq> (X i \<noteq> None)) v
      then Inl [FieldPresenceMismatch ''X'']
      else if X (hd v) \<noteq> None \<and>
              list_ex (\<lambda>i. sort (columns (the (X i))) \<noteq> sort (columns (the (X (hd v))))) v
      then Inl [ColumnMismatch]
      else Inr v)"

definition CvResults_init :: "cvresult list \<Rightarrow> cvresults result" where
  "CvResults_init v =
     (case validate_results v of Inl es \<Rightarrow> Inl es | Inr v' \<Rightarrow> Inr \<lparr>results = v'\<rparr>)"

definition is_loo :: "cvresults \<Rightarrow> bool" where
  "is_loo c = list_all (\<lambda>n. n = 1) (map n_samples (results c))"

text \<open>
  \<open>_combine_folds\<close>: the first \<open>concat\<close> fails on a collection without folds, so the reads
  of \<open>results[0]\<close> after it are reads of a non-empty list. The combined fold is built with
  the constructor and so passes through its validators.
\<close>

definition combine_folds :: "cvresults \<Rightarrow> cvresult result" where
  "combine_folds c =
     (case pd_concat_series (map (\<lambda>cv. Some (observed cv)) (results c)) of
        Inl es \<Rightarrow> Inl es
      | Inr obs \<Rightarrow>
     (case pd_concat_series (map (\<lambda>cv. Some (predicted cv)) (results c)) of
        Inl es \<Rightarrow> Inl es
      | Inr pred \<Rightarrow>
     (case (if standard_deviation (hd (results c)) \<noteq> None
            then map_sum id Some (pd_concat_series (map standard_deviation (results c)))
            else Inr None) of
        Inl es \<Rightarrow> Inl es
      | Inr sd \<Rightarrow>
     (case (if labcodes (hd (results c)) \<noteq> None
            then map_sum id Some (pd_concat_series (map labcodes (results c)))
            else Inr None) of
        Inl es \<Rightarrow> Inl es
      | Inr labs \<Rightarrow>
     (case (if X (hd (results c)) \<noteq> None
            then map_sum id Some (pd_concat_frames (map X (results c)))
            else Inr None) of
        Inl es \<Rightarrow> Inl es
      | Inr x \<Rightarrow>
          CvResult_init \<lparr>key = key (hd (results c)), observed = obs, predicted = pred,
            standard_deviation = sd, labcodes = labs, X = x\<rparr>)))))"

text \<open>
  A list comprehension whose element may raise: the first failure, from the left, is the
  failure of the whole.
\<close>

fun collect :: "'a result list \<Rightarrow> 'a list result" where
  "collect [] = Inr []"
| "collect (r # rs) =
     (case r of
        Inl es \<Rightarrow> Inl es
      | Inr v \<Rightarrow> (case collect rs of Inl es \<Rightarrow> Inl es | Inr vs \<Rightarrow> Inr (v # vs)))"

text \<open>A Series with a name, as \<open>pd.Series(data, name=...)\<close> builds it.\<close>

record 'a named_series =
  name :: string
  items :: "'a series"

definition CvResults_get_metric ::
  "'f library \<Rightarrow> cvresults \<Rightarrow> RegressionMetricsEnum \<Rightarrow> bool \<Rightarrow> 'f named_series result" where
  "CvResults_get_metric L c metric combine =
     (if is_loo c \<or> combine
      then (case combine_folds c of
              Inl es \<Rightarrow> Inl es
            | Inr cv \<Rightarrow>
                (case CvResult_get_metric L cv metric of
                   Inl es \<Rightarrow> Inl es
                 | Inr m \<Rightarrow> Inr \<lparr>name = metric_name metric, items = make_series [m]\<rparr>))
      else (case collect (map (\<lambda>cv. CvResult_get_metric L cv metric) (results c)) of
              Inl es \<Rightarrow> Inl es
            | Inr ms \<Rightarrow> Inr \<lparr>name = metric_name metric, items = make_series ms\<rparr>))"

subsection \<open>The rank-discrimination test as the specification words it\<close>

text \<open>
  The indices of the \<open>k\<close> largest values are the last \<open>k\<close> entries of the ascending order
  that \<open>argsort\<close> returns.
\<close>

definition top_indices :: "'f library \<Rightarrow> nat \<Rightarrow> cell list \<Rightarrow> nat set" where
  "top_indices L k xs = set (drop (length (argsort L xs) - k) (argsort L xs))"

definition fisher_spec :: "'f library \<Rightarrow> cell list \<Rightarrow> cell list \<Rightarrow> 'f" where
  "fisher_spec L obs pred =
     (let N = length obs;
          n_half = N div 2;
          tp = card (top_indices L n_half pred \<inter> top_indices L n_half obs)
      in fisher_exact L
           [[int tp, int n_half - int tp],
            [int n_half - int tp, (int N - int n_half) - (int n_half - int tp)]]
           Greater)"

subsection \<open>A library that records its calls, and example folds\<close>

text \<open>
  A library whose functions return the call itself, so that a result shows which function
  the module called on which arguments. Its \<open>argsort\<close> is a stable sort of the indices.
\<close>

datatype call =
    MeanAbsoluteError "cell list" "cell list"
  | MeanAbsolutePercentageError "cell list" "cell list"
  | MeanSquaredError "cell list" "cell list"
  | R2Score "cell list" "cell list"
  | PearsonR "cell list" "cell list"
  | SpearmanR "cell list" "cell list"
  | FisherExact "int list list" alternative

fun cell_value :: "cell \<Rightarrow> real" where
  "cell_value (Num r) = r"
| "cell_value NaN = 0"
| "cell_value (Str s) = 0"

definition stable_argsort :: "cell list \<Rightarrow> nat list" where
  "stable_argsort xs = sort_key (\<lambda>i. cell_value (xs ! i)) [0..<length xs]"

definition recording :: "call library" where
  "recording =
     \<lparr>mean_absolute_error = MeanAbsoluteError,
      mean_absolute_percentage_error = MeanAbsolutePercentageError,
      mean_squared_error = MeanSquaredError,
      r2_score = R2Score,
      pearsonr = PearsonR,
      spearmanr = SpearmanR,
      fisher_exact = FisherExact,
      argsort = stable_argsort\<rparr>"

definition fold_of :: "real list \<Rightarrow> real list \<Rightarrow> cvresult" where
  "fold_of obs pred =
     \<lparr>key = ''y'', observed = make_series (map Num obs), predicted = make_series (map Num pred),
      standard_deviation = None, labcodes = None, X = None\<rparr>"

definition empty_fold :: cvresult where
  "empty_fold = fold_of [] []"

definition single_fold :: cvresult where
  "single_fold = fold_of [1] [2]"

definition pair_fold :: cvresult where
  "pair_fold = fold_of [1, 3] [2, 5]"

definition bad_fold :: cvresult where
  "bad_fold =
     \<lparr>key = ''y'', observed = make_series [Str ''low''], predicted = make_series [Num 1, Num 2],
      standard_deviation = None, labcodes = None, X = None\<rparr>"

definition pair_fold_sd :: cvresult where
  "pair_fold_sd = pair_fold\<lparr>standard_deviation := Some (make_series [Num 4, Num 9])\<rparr>"

definition triple_fold :: cvresult where
  "triple_fold = fold_of [1, 2, 3] [3, 1, 2]"

definition quad_fold :: cvresult where
  "quad_fold = fold_of [1, 2, 3, 4] [3, 8, 4, 7]"

definition five_fold :: cvresult where
  "five_fold = fold_of [1, 2, 3, 4, 5] [1, 2, 3, 4, 6]"

definition loo_run :: cvresults where
  "loo_run = \<lparr>results = replicate 5 single_fold\<rparr>"

definition five_run :: cvresults where
  "five_run = \<lparr>results = replicate 5 five_fold\<rparr>"

definition mixed_run :: cvresults where
  "mixed_run = \<lparr>results = [five_fold, single_fold]\<rparr>"

text \<open>Folds of one sample that carry a table \<open>X\<close> of one row.\<close>

definition row_frame :: "string list \<Rightarrow> dataframe" where
  "row_frame labels =
     \<lparr>frame_index = [0], frame_columns = map (\<lambda>c. (c, [Num 0])) labels\<rparr>"

definition framed_fold :: "string list \<Rightarrow> cvresult" where
  "framed_fold labels = single_fold\<lparr>X := Some (row_frame labels)\<rparr>"

section \<open>Properties\<close>

subsection \<open>Construction of a fold\<close>

lemma make_series_simps:
  "make_series [] = []"
  "make_series [a] = [(0, a)]"
  "make_series [a, b] = [(0, a), (1, b)]"
  "make_series [a, b, c] = [(0, a), (1, b), (2, c)]"
  by (simp_all add: make_series_def range_index_def upt_rec)

lemma length_make_series: "length (make_series vs) = length vs"
  by (simp add: make_series_def range_index_def)

lemma series_values_make_series: "series_values (make_series vs) = vs"
  by (simp add: series_values_def make_series_def range_index_def)

lemma series_index_make_series: "series_index (make_series vs) = range_index (length vs)"
  by (simp add: series_index_def make_series_def range_index_def)

lemma length_series_values: "length (series_values s) = length s"
  by (simp add: series_values_def)

lemma validate_shapes_result:
  "validate_shapes vals = Inr r \<Longrightarrow> r = vals"
  by (simp add: validate_shapes_def split: if_splits)

lemma validate_shapes_Inr:
  "validate_shapes vals = Inr r \<Longrightarrow>
     length (predicted vals) = length (observed vals) \<and>
     (\<forall>sd. standard_deviation vals = Some sd \<longrightarrow> length sd = length (observed vals)) \<and>
     (\<forall>l. labcodes vals = Some l \<longrightarrow> length l = length (observed vals)) \<and>
     (\<forall>x. X vals = Some x \<longrightarrow> frame_len x = length (observed vals))"
  by (auto simp: validate_shapes_def split: if_splits)

lemma CvResult_init_Inr:
  assumes "CvResult_init vals = Inr r"
  shows "r = vals" and "validate_shapes vals = Inr vals" and "is_numeric (observed vals)"
    and "is_numeric (predicted vals)"
    and "standard_deviation vals \<noteq> None \<Longrightarrow> is_numeric (the (standard_deviation vals))"
proof -
  obtain vs where vs: "validate_shapes vals = Inr vs"
    using assms by (cases "validate_shapes vals") (simp_all add: CvResult_init_def)
  then have eq: "vs = vals" by (rule validate_shapes_result)
  have es: "errors_of (validate_observed (observed vals))
      @ errors_of (validate_predicted (predicted vals))
      @ errors_of (validate_standard_deviation (standard_deviation vals)) = []"
    and r: "r = vals"
    using assms vs eq by (simp_all add: CvResult_init_def Let_def split: if_splits)
  show "r = vals" by (rule r)
  show "validate_shapes vals = Inr vals" using vs eq by simp
  show "is_numeric (observed vals)"
    using es by (simp add: validate_observed_def errors_of_def split: if_splits)
  show "is_numeric (predicted vals)"
    using es by (simp add: validate_predicted_def errors_of_def split: if_splits)
  show "standard_deviation vals \<noteq> None \<Longrightarrow> is_numeric (the (standard_deviation vals))"
    using es by (simp add: validate_standard_deviation_def errors_of_def split: if_splits)
qed

lemma CvResult_init_eq:
  "CvResult_init vals = Inr vals \<longleftrightarrow>
     validate_shapes vals = Inr vals \<and> is_numeric (observed vals) \<and> is_numeric (predicted vals) \<and>
     (standard_deviation vals \<noteq> None \<longrightarrow> is_numeric (the (standard_deviation vals)))"
  (is "?l \<longleftrightarrow> ?r")
proof
  assume ?l then show ?r using CvResult_init_Inr [of vals vals] by blast
next
  assume ?r then show ?l
    by (auto simp: CvResult_init_def validate_observed_def validate_predicted_def
        validate_standard_deviation_def errors_of_def)
qed

lemma is_numeric_make_series_Num: "is_numeric (make_series (map Num xs))"
  by (simp add: is_numeric_def series_values_make_series list_all_iff)

lemma fold_of_ok:
  "length obs = length pred \<Longrightarrow> CvResult_init (fold_of obs pred) = Inr (fold_of obs pred)"
  by (simp add: CvResult_init_eq validate_shapes_def fold_of_def length_make_series
      is_numeric_make_series_Num)

lemma n_samples_fold_of: "n_samples (fold_of obs pred) = length obs"
  by (simp add: n_samples_def fold_of_def length_make_series)

text \<open>
  C7 (as amended). A constructed fold has as many samples as \<open>observed\<close> has values, which
  is also the number of values of \<open>predicted\<close>; the number may be zero, since a
  construction from an empty \<open>observed\<close> and an empty \<open>predicted\<close> without optional fields
  succeeds.
\<close>

theorem CvResult_n_samples:
  "(CvResult_init vals = Inr r \<longrightarrow>
      n_samples r = length (observed vals) \<and> n_samples r = length (predicted vals)) \<and>
   (observed vals = [] \<and> predicted vals = [] \<and> standard_deviation vals = None \<and>
    labcodes vals = None \<and> X vals = None \<longrightarrow>
      CvResult_init vals = Inr vals \<and> n_samples vals = 0)"
proof (intro conjI impI)
  assume ok: "CvResult_init vals = Inr r"
  then have "r = vals" and "validate_shapes vals = Inr vals"
    by (rule CvResult_init_Inr)+
  then show "n_samples r = length (observed vals)" and "n_samples r = length (predicted vals)"
    using validate_shapes_Inr [of vals vals] by (simp_all add: n_samples_def)
next
  assume e: "observed vals = [] \<and> predicted vals = [] \<and> standard_deviation vals = None \<and>
    labcodes vals = None \<and> X vals = None"
  then show "CvResult_init vals = Inr vals"
    by (simp add: CvResult_init_eq validate_shapes_def is_numeric_def series_values_def)
  from e show "n_samples vals = 0"
    by (simp add: n_samples_def)
qed

theorem CvResult_n_samples_witness:
  "CvResult_init pair_fold = Inr pair_fold \<and> n_samples pair_fold = 2 \<and>
   CvResult_init empty_fold = Inr empty_fold \<and> n_samples empty_fold = 0"
proof -
  have ok: "CvResult_init pair_fold = Inr pair_fold"
    by (simp add: pair_fold_def fold_of_ok)
  have e: "observed empty_fold = [] \<and> predicted empty_fold = [] \<and>
    standard_deviation empty_fold = None \<and> labcodes empty_fold = None \<and> X empty_fold = None"
    by (simp add: empty_fold_def fold_of_def make_series_simps)
  have "length (observed pair_fold) = 2"
    by (simp add: pair_fold_def fold_of_def length_make_series)
  with ok e show ?thesis
    using CvResult_n_samples [of pair_fold pair_fold] CvResult_n_samples [of empty_fold empty_fold]
    by simp
qed

text \<open>
  The claim C7 as it is written fails: the empty fold is constructed, and it has no sample.
\<close>

theorem CvResult_empty_counterexample:
  "CvResult_init empty_fold = Inr empty_fold \<and> \<not> 1 \<le> n_samples empty_fold"
  by (simp add: empty_fold_def fold_of_ok n_samples_fold_of)

lemma validate_shapes_Inl:
  "validate_shapes vals = Inl es \<Longrightarrow> CvResult_init vals = Inl es"
  by (simp add: CvResult_init_def)

text \<open>
  C6. A construction whose lengths disagree fails with one \<open>ShapeMismatch\<close>, which names
  \<open>predicted\<close> with its length and the field that differs from it with that field's length.
  Nothing is assumed of the values, so the shape error comes before any \<open>NotNumeric\<close>:
  no such error is in the list.
\<close>

theorem CvResult_init_shape_mismatch:
  assumes "length (predicted vals) \<noteq> length (observed vals) \<or>
     (\<exists>sd. standard_deviation vals = Some sd \<and> length sd \<noteq> length (observed vals)) \<or>
     (\<exists>l. labcodes vals = Some l \<and> length l \<noteq> length (observed vals)) \<or>
     (\<exists>x. X vals = Some x \<and> frame_len x \<noteq> length (observed vals))"
  shows "\<exists>field k. CvResult_init vals =
            Inl [ShapeMismatch ''predicted'' (length (predicted vals)) field k] \<and>
          k \<noteq> length (predicted vals) \<and>
          (field = ''observed'' \<and> k = length (observed vals) \<or>
           field = ''standard_deviation'' \<and> standard_deviation vals \<noteq> None \<and>
             k = length (the (standard_deviation vals)) \<or>
           field = ''labcodes'' \<and> labcodes vals \<noteq> None \<and> k = length (the (labcodes vals)) \<or>
           field = ''X'' \<and> X vals \<noteq> None \<and> k = frame_len (the (X vals)))"
proof -
  define c1 where "c1 \<longleftrightarrow> length (predicted vals) \<noteq> length (observed vals)"
  define c2 where "c2 \<longleftrightarrow> standard_deviation vals \<noteq> None \<and>
    length (predicted vals) \<noteq> length (the (standard_deviation vals))"
  define c3 where "c3 \<longleftrightarrow> labcodes vals \<noteq> None \<and>
    length (predicted vals) \<noteq> length (the (labcodes vals))"
  define c4 where "c4 \<longleftrightarrow> X vals \<noteq> None \<and>
    length (predicted vals) \<noteq> frame_len (the (X vals))"
  have some: "c1 \<or> c2 \<or> c3 \<or> c4"
    using assms unfolding c1_def c2_def c3_def c4_def by fastforce
  consider (a) c1 | (b) "\<not> c1" c2 | (c) "\<not> c1" "\<not> c2" c3 | (d) "\<not> c1" "\<not> c2" "\<not> c3" c4
    using some by blast
  then show ?thesis
  proof cases
    case a
    then have "validate_shapes vals = Inl [ShapeMismatch ''predicted'' (length (predicted vals))
        ''observed'' (length (observed vals))]"
      unfolding c1_def by (simp add: validate_shapes_def)
    then have "CvResult_init vals = Inl [ShapeMismatch ''predicted'' (length (predicted vals))
        ''observed'' (length (observed vals))]"
      by (rule validate_shapes_Inl)
    moreover have "length (observed vals) \<noteq> length (predicted vals)"
      using a unfolding c1_def by simp
    ultimately show ?thesis by blast
  next
    case b
    then have "validate_shapes vals = Inl [ShapeMismatch ''predicted'' (length (predicted vals))
        ''standard_deviation'' (length (the (standard_deviation vals)))]"
      unfolding c1_def c2_def by (simp add: validate_shapes_def)
    then have "CvResult_init vals = Inl [ShapeMismatch ''predicted'' (length (predicted vals))
        ''standard_deviation'' (length (the (standard_deviation vals)))]"
      by (rule validate_shapes_Inl)
    moreover have "length (the (standard_deviation vals)) \<noteq> length (predicted vals)"
      and "standard_deviation vals \<noteq> None"
      using b unfolding c2_def by simp_all
    ultimately show ?thesis by blast
  next
    case c
    then have "validate_shapes vals = Inl [ShapeMismatch ''predicted'' (length (predicted vals))
        ''labcodes'' (length (the (labcodes vals)))]"
      unfolding c1_def c2_def c3_def by (simp add: validate_shapes_def)
    then have "CvResult_init vals = Inl [ShapeMismatch ''predicted'' (length (predicted vals))
        ''labcodes'' (length (the (labcodes vals)))]"
      by (rule validate_shapes_Inl)
    moreover have "length (the (labcodes vals)) \<noteq> length (predicted vals)"
      and "labcodes vals \<noteq> None"
      using c unfolding c3_def by simp_all
    ultimately show ?thesis by blast
  next
    case d
    then have "validate_shapes vals = Inl [ShapeMismatch ''predicted'' (length (predicted vals))
        ''X'' (frame_len (the (X vals)))]"
      unfolding c1_def c2_def c3_def c4_def by (simp add: validate_shapes_def)
    then have "CvResult_init vals = Inl [ShapeMismatch ''predicted'' (length (predicted vals))
        ''X'' (frame_len (the (X vals)))]"
      by (rule validate_shapes_Inl)
    moreover have "frame_len (the (X vals)) \<noteq> length (predicted vals)"
      and "X vals \<noteq> None"
      using d unfolding c4_def by simp_all
    ultimately show ?thesis by blast
  qed
qed

theorem CvResult_init_shape_mismatch_witness:
  "length (predicted bad_fold) \<noteq> length (observed bad_fold) \<and>
   \<not> is_numeric (observed bad_fold) \<and>
   CvResult_init bad_fold = Inl [ShapeMismatch ''predicted'' 2 ''observed'' 1]"
proof -
  have p: "length (predicted bad_fold) = 2"
    by (simp add: bad_fold_def length_make_series)
  have ob: "length (observed bad_fold) = 1"
    by (simp add: bad_fold_def length_make_series)
  have none: "standard_deviation bad_fold = None" "labcodes bad_fold = None" "X bad_fold = None"
    by (simp_all add: bad_fold_def)
  have n: "\<not> is_numeric (observed bad_fold)"
    by (simp add: bad_fold_def is_numeric_def series_values_make_series)
  have hyp: "length (predicted bad_fold) \<noteq> length (observed bad_fold) \<or>
     (\<exists>sd. standard_deviation bad_fold = Some sd \<and> length sd \<noteq> length (observed bad_fold)) \<or>
     (\<exists>l. labcodes bad_fold = Some l \<and> length l \<noteq> length (observed bad_fold)) \<or>
     (\<exists>x. X bad_fold = Some x \<and> frame_len x \<noteq> length (observed bad_fold))"
    using p ob by simp
  obtain field k where
    r: "CvResult_init bad_fold = Inl [ShapeMismatch ''predicted'' (length (predicted bad_fold)) field k]"
    and f: "field = ''observed'' \<and> k = length (observed bad_fold) \<or>
           field = ''standard_deviation'' \<and> standard_deviation bad_fold \<noteq> None \<and>
             k = length (the (standard_deviation bad_fold)) \<or>
           field = ''labcodes'' \<and> labcodes bad_fold \<noteq> None \<and> k = length (the (labcodes bad_fold)) \<or>
           field = ''X'' \<and> X bad_fold \<noteq> None \<and> k = frame_len (the (X bad_fold))"
    using CvResult_init_shape_mismatch [OF hyp] by blast
  from f none have "field = ''observed'' \<and> k = 1"
    using ob by blast
  with r p have "CvResult_init bad_fold = Inl [ShapeMismatch ''predicted'' 2 ''observed'' 1]"
    by simp
  with p ob n show ?thesis by simp
qed

subsection \<open>The metric of one fold\<close>




text \<open>
  C9. The value of a metric does not depend on the standard deviation: two folds with the
  same observed and predicted values get the same result from \<open>get_metric\<close>, for every
  metric of the registry, whatever their standard deviations are (present or absent); with
  more than one sample that result is a value.
\<close>

lemma metrics_ignore_sd: "metrics L metric obs pred sd = metrics L metric obs pred sd'"
  by (cases metric)
    (simp_all add: m_mean_absolute_error_def m_mean_squared_error_def m_r2_score_def
      m_mean_absolute_percentage_error_def m_pearson_def m_spearman_def
      m_fisher_exact_test_p_def)

theorem get_metric_ignores_standard_deviation:
  assumes "observed r1 = observed r2" and "predicted r1 = predicted r2"
    and "1 < n_samples r1"
  shows "CvResult_get_metric L r1 metric = CvResult_get_metric L r2 metric \<and>
         (\<exists>m. CvResult_get_metric L r1 metric = Inr m)"
  using assms metrics_ignore_sd [of L metric _ _ "standard_deviation r1" "standard_deviation r2"]
  by (simp add: CvResult_get_metric_def n_samples_def)

theorem get_metric_ignores_standard_deviation_witness:
  "standard_deviation pair_fold = None \<and> standard_deviation pair_fold_sd \<noteq> None \<and>
   1 < n_samples pair_fold \<and>
   CvResult_get_metric recording pair_fold SPEARMAN =
     CvResult_get_metric recording pair_fold_sd SPEARMAN"
proof -
  have "observed pair_fold = observed pair_fold_sd" "predicted pair_fold = predicted pair_fold_sd"
    by (simp_all add: pair_fold_sd_def)
  moreover have "1 < n_samples pair_fold"
    by (simp add: pair_fold_def n_samples_fold_of)
  moreover have "standard_deviation pair_fold = None"
    by (simp add: pair_fold_def fold_of_def)
  moreover have "standard_deviation pair_fold_sd \<noteq> None"
    by (simp add: pair_fold_sd_def)
  ultimately show ?thesis
    using get_metric_ignores_standard_deviation [of pair_fold pair_fold_sd recording SPEARMAN]
    by simp
qed

subsection \<open>The rank-discrimination test\<close>

text \<open>
  C3. On a fold with more than one sample the FISHER metric is the computation the
  specification words: \<open>n_half\<close> is the number of samples divided by two and rounded down,
  the index sets are those of the \<open>n_half\<close> largest observed and predicted values, the
  table is built from the size of their intersection, and the value is the p-value of the
  one-sided exact test on it.
\<close>

lemma slice_from_negative:
  "0 < k \<Longrightarrow> slice_from (- k) xs = drop (length xs - nat k) xs"
  by (simp add: slice_from_def Let_def nat_diff_distrib' max_def)

lemma m_fisher_exact_test_p_spec:
  assumes "1 < length obs"
  shows "m_fisher_exact_test_p L obs pred sd = fisher_spec L obs pred"
proof -
  have pos: "0 < int (length obs) div 2"
    using assms by simp
  have half: "nat (int (length obs) div 2) = length obs div 2"
    by (simp add: nat_div_distrib)
  have i: "int (length obs div 2) = int (length obs) div 2"
    by simp
  show ?thesis
    unfolding m_fisher_exact_test_p_def fisher_spec_def top_indices_def Let_def
      slice_from_negative [OF pos] half i
    by simp
qed

theorem fisher_steps:
  assumes "1 < n_samples r"
  shows "CvResult_get_metric L r FISHER =
           Inr (fisher_spec L (series_values (observed r)) (series_values (predicted r)))"
proof -
  have "1 < length (series_values (observed r))"
    using assms by (simp add: n_samples_def length_series_values)
  then have "m_fisher_exact_test_p L (series_values (observed r)) (series_values (predicted r))
      (standard_deviation r)
    = fisher_spec L (series_values (observed r)) (series_values (predicted r))"
    by (rule m_fisher_exact_test_p_spec)
  then show ?thesis
    using assms by (simp add: CvResult_get_metric_def)
qed

lemma stable_argsort_3: "stable_argsort [Num a, Num b, Num c] =
  insort_key (\<lambda>i. cell_value ([Num a, Num b, Num c] ! i)) 0
   (insort_key (\<lambda>i. cell_value ([Num a, Num b, Num c] ! i)) 1
    (insort_key (\<lambda>i. cell_value ([Num a, Num b, Num c] ! i)) 2 []))"
  by (simp add: stable_argsort_def upt_rec)

lemma argsort_examples:
  "stable_argsort [Num 1, Num 2, Num 3] = [0, 1, 2]"
  "stable_argsort [Num 3, Num 1, Num 2] = [1, 2, 0]"
  by (simp_all add: stable_argsort_3)

theorem fisher_steps_witness:
  "1 < n_samples triple_fold \<and>
   CvResult_get_metric recording triple_fold FISHER = Inr (FisherExact [[0, 1], [1, 1]] Greater)"
proof -
  have n: "1 < n_samples triple_fold"
    by (simp add: triple_fold_def n_samples_fold_of)
  have v: "series_values (observed triple_fold) = [Num 1, Num 2, Num 3]"
    "series_values (predicted triple_fold) = [Num 3, Num 1, Num 2]"
    by (simp_all add: triple_fold_def fold_of_def series_values_make_series)
  have "fisher_spec recording [Num 1, Num 2, Num 3] [Num 3, Num 1, Num 2]
      = FisherExact [[0, 1], [1, 1]] Greater"
    by (simp add: fisher_spec_def top_indices_def recording_def argsort_examples)
  with n v show ?thesis
    using fisher_steps [of triple_fold recording] by simp
qed

subsection \<open>Leave-one-out\<close>

text \<open>
  C8. A collection is leave-one-out exactly when each of its folds has exactly one sample.
\<close>

theorem is_loo_iff:
  "is_loo c \<longleftrightarrow> (\<forall>r \<in> set (results c). n_samples r = 1)"
  by (simp add: is_loo_def list_all_iff)

theorem is_loo_iff_witness:
  "is_loo loo_run \<and> \<not> is_loo five_run \<and> \<not> is_loo mixed_run"
proof -
  have "n_samples single_fold = 1" "n_samples five_fold = 5"
    by (simp_all add: single_fold_def five_fold_def n_samples_fold_of)
  then show ?thesis
    using is_loo_iff [of loo_run] is_loo_iff [of five_run] is_loo_iff [of mixed_run]
    by (simp add: loo_run_def five_run_def mixed_run_def)
qed

subsection \<open>Construction of a collection\<close>

lemma columns_row_frame: "columns (row_frame labels) = labels"
  by (simp add: columns_def row_frame_def comp_def)

lemma sort_eq_iff_mset: "sort xs = sort ys \<longleftrightarrow> mset xs = mset ys"
proof
  assume "sort xs = sort ys"
  then have "mset (sort xs) = mset (sort ys)" by simp
  then show "mset xs = mset ys" by simp
next
  assume "mset xs = mset ys"
  then show "sort xs = sort ys"
    by (metis mset_sort properties_for_sort sorted_sort)
qed

lemma presence_iff:
  fixes f :: "cvresult \<Rightarrow> 'a option"
  assumes "v \<noteq> []"
  shows "list_ex (\<lambda>i. (f (hd v) \<noteq> None) \<noteq> (f i \<noteq> None)) v \<longleftrightarrow>
         (\<exists>i \<in> set v. f i \<noteq> None) \<and> (\<exists>i \<in> set v. f i = None)"
proof -
  have "hd v \<in> set v" using assms by simp
  show ?thesis
  proof
    assume "list_ex (\<lambda>i. (f (hd v) \<noteq> None) \<noteq> (f i \<noteq> None)) v"
    then obtain i where i: "i \<in> set v" "(f (hd v) \<noteq> None) \<noteq> (f i \<noteq> None)"
      unfolding list_ex_iff by blast
    show "(\<exists>i \<in> set v. f i \<noteq> None) \<and> (\<exists>i \<in> set v. f i = None)"
    proof (cases "f (hd v) = None")
      case True
      with i have "f i \<noteq> None" by simp
      with i(1) True \<open>hd v \<in> set v\<close> show ?thesis by blast
    next
      case False
      with i have "f i = None" by simp
      with i(1) False \<open>hd v \<in> set v\<close> show ?thesis by blast
    qed
  next
    assume "(\<exists>i \<in> set v. f i \<noteq> None) \<and> (\<exists>i \<in> set v. f i = None)"
    then obtain i j where ij: "i \<in> set v" "f i \<noteq> None" "j \<in> set v" "f j = None"
      by blast
    show "list_ex (\<lambda>i. (f (hd v) \<noteq> None) \<noteq> (f i \<noteq> None)) v"
    proof (cases "f (hd v) = None")
      case True
      with ij(1,2) show ?thesis unfolding list_ex_iff by blast
    next
      case False
      with ij(3,4) show ?thesis unfolding list_ex_iff by blast
    qed
  qed
qed

lemma columns_differ_iff:
  assumes "v \<noteq> []" and "\<forall>i \<in> set v. X i \<noteq> None"
  shows "list_ex (\<lambda>i. sort (columns (the (X i))) \<noteq> sort (columns (the (X (hd v))))) v \<longleftrightarrow>
         (\<exists>i \<in> set v. \<exists>j \<in> set v. X i \<noteq> None \<and> X j \<noteq> None \<and>
            mset (columns (the (X i))) \<noteq> mset (columns (the (X j))))"
proof -
  have h: "hd v \<in> set v" using assms by simp
  show ?thesis unfolding list_ex_iff sort_eq_iff_mset
    using h assms(2) by metis
qed


lemma columns_condition_iff:
  assumes "v \<noteq> []"
    and "\<not> ((\<exists>i \<in> set v. X i \<noteq> None) \<and> (\<exists>i \<in> set v. X i = None))"
  shows "X (hd v) \<noteq> None \<and>
           list_ex (\<lambda>i. sort (columns (the (X i))) \<noteq> sort (columns (the (X (hd v))))) v \<longleftrightarrow>
         (\<exists>i \<in> set v. \<exists>j \<in> set v. X i \<noteq> None \<and> X j \<noteq> None \<and>
            mset (columns (the (X i))) \<noteq> mset (columns (the (X j))))"
proof (cases "X (hd v) = None")
  case True
  have "hd v \<in> set v" using assms(1) by simp
  with True assms(2) have "\<forall>i \<in> set v. X i = None" by auto
  with True show ?thesis by simp
next
  case False
  have "hd v \<in> set v" using assms(1) by simp
  with False assms(2) have all: "\<forall>i \<in> set v. X i \<noteq> None" by auto
  from False columns_differ_iff [OF assms(1) all] show ?thesis by simp
qed

lemma validate_results_cases:
  "validate_results v =
     (if length v < 2 then Inl [EmptyCollection]
      else if \<exists>i \<in> set v. key i \<noteq> key (hd v) then Inl [KeyMismatch]
      else if (\<exists>i \<in> set v. standard_deviation i \<noteq> None) \<and>
              (\<exists>i \<in> set v. standard_deviation i = None)
      then Inl [FieldPresenceMismatch ''standard_deviation'']
      else if (\<exists>i \<in> set v. labcodes i \<noteq> None) \<and> (\<exists>i \<in> set v. labcodes i = None)
      then Inl [FieldPresenceMismatch ''labcodes'']
      else if (\<exists>i \<in> set v. X i \<noteq> None) \<and> (\<exists>i \<in> set v. X i = None)
      then Inl [FieldPresenceMismatch ''X'']
      else if \<exists>i \<in> set v. \<exists>j \<in> set v. X i \<noteq> None \<and> X j \<noteq> None \<and>
                mset (columns (the (X i))) \<noteq> mset (columns (the (X j)))
      then Inl [ColumnMismatch]
      else Inr v)"
proof (cases "length v < 2")
  case True
  then show ?thesis
    by (simp add: validate_results_def)
next
  case False
  then have ne: "v \<noteq> []" by auto
  have len: "\<not> length v \<le> 1" using False by simp
  define K where "K \<longleftrightarrow> (\<exists>i \<in> set v. key i \<noteq> key (hd v))"
  define S where "S \<longleftrightarrow> (\<exists>i \<in> set v. standard_deviation i \<noteq> None) \<and>
              (\<exists>i \<in> set v. standard_deviation i = None)"
  define B where "B \<longleftrightarrow> (\<exists>i \<in> set v. labcodes i \<noteq> None) \<and> (\<exists>i \<in> set v. labcodes i = None)"
  define P where "P \<longleftrightarrow> (\<exists>i \<in> set v. X i \<noteq> None) \<and> (\<exists>i \<in> set v. X i = None)"
  define D where "D \<longleftrightarrow> (\<exists>i \<in> set v. \<exists>j \<in> set v. X i \<noteq> None \<and> X j \<noteq> None \<and>
                mset (columns (the (X i))) \<noteq> mset (columns (the (X j))))"
  have k: "list_ex (\<lambda>i. key i \<noteq> key (hd v)) v \<longleftrightarrow> K"
    by (simp add: K_def list_ex_iff)
  have s: "list_ex (\<lambda>i. (standard_deviation (hd v) \<noteq> None) \<noteq> (standard_deviation i \<noteq> None)) v
      \<longleftrightarrow> S"
    unfolding S_def by (rule presence_iff [OF ne])
  have b: "list_ex (\<lambda>i. (labcodes (hd v) \<noteq> None) \<noteq> (labcodes i \<noteq> None)) v \<longleftrightarrow> B"
    unfolding B_def by (rule presence_iff [OF ne])
  have p: "list_ex (\<lambda>i. (X (hd v) \<noteq> None) \<noteq> (X i \<noteq> None)) v \<longleftrightarrow> P"
    unfolding P_def by (rule presence_iff [OF ne])
  have d: "\<not> P \<Longrightarrow> X (hd v) \<noteq> None \<and>
      list_ex (\<lambda>i. sort (columns (the (X i))) \<noteq> sort (columns (the (X (hd v))))) v \<longleftrightarrow> D"
    unfolding P_def D_def by (rule columns_condition_iff [OF ne])
  have code: "validate_results v =
     (if K then Inl [KeyMismatch]
      else if S then Inl [FieldPresenceMismatch ''standard_deviation'']
      else if B then Inl [FieldPresenceMismatch ''labcodes'']
      else if P then Inl [FieldPresenceMismatch ''X'']
      else if X (hd v) \<noteq> None \<and>
        list_ex (\<lambda>i. sort (columns (the (X i))) \<noteq> sort (columns (the (X (hd v))))) v
      then Inl [ColumnMismatch] else Inr v)"
    unfolding validate_results_def k s b p using len by simp
  have "validate_results v =
     (if K then Inl [KeyMismatch]
      else if S then Inl [FieldPresenceMismatch ''standard_deviation'']
      else if B then Inl [FieldPresenceMismatch ''labcodes'']
      else if P then Inl [FieldPresenceMismatch ''X'']
      else if D then Inl [ColumnMismatch] else Inr v)"
  proof (cases P)
    case True
    then show ?thesis unfolding code by simp
  next
    case no: False
    show ?thesis unfolding code d [OF no] by simp
  qed
  then show ?thesis
    using False unfolding K_def S_def B_def P_def D_def by simp
qed


lemma framed_fold_ok: "CvResult_init (framed_fold labels) = Inr (framed_fold labels)"
  by (simp add: CvResult_init_eq validate_shapes_def framed_fold_def single_fold_def fold_of_def
      length_make_series frame_len_def row_frame_def is_numeric_def series_values_make_series)

lemma framed_fold_fields:
  "key (framed_fold labels) = ''y''"
  "standard_deviation (framed_fold labels) = None"
  "labcodes (framed_fold labels) = None"
  "X (framed_fold labels) = Some (row_frame labels)"
  by (simp_all add: framed_fold_def single_fold_def fold_of_def)

text \<open>
  C5 (as amended). The construction of a collection fails with \<open>EmptyCollection\<close> on fewer
  than two folds; else with \<open>KeyMismatch\<close> when a fold's key differs from the key of the
  first fold; else with \<open>FieldPresenceMismatch\<close> for the first of \<open>standard_deviation\<close>,
  \<open>labcodes\<close>, \<open>X\<close> that some folds have and others lack; else with \<open>ColumnMismatch\<close> when
  the column names of two folds' \<open>X\<close> differ as multisets, that is whatever their order
  but counting how often a name occurs; and it succeeds otherwise.
\<close>

theorem CvResults_init_cases:
  "CvResults_init v =
     (if length v < 2 then Inl [EmptyCollection]
      else if \<exists>i \<in> set v. key i \<noteq> key (hd v) then Inl [KeyMismatch]
      else if (\<exists>i \<in> set v. standard_deviation i \<noteq> None) \<and>
              (\<exists>i \<in> set v. standard_deviation i = None)
      then Inl [FieldPresenceMismatch ''standard_deviation'']
      else if (\<exists>i \<in> set v. labcodes i \<noteq> None) \<and> (\<exists>i \<in> set v. labcodes i = None)
      then Inl [FieldPresenceMismatch ''labcodes'']
      else if (\<exists>i \<in> set v. X i \<noteq> None) \<and> (\<exists>i \<in> set v. X i = None)
      then Inl [FieldPresenceMismatch ''X'']
      else if \<exists>i \<in> set v. \<exists>j \<in> set v. X i \<noteq> None \<and> X j \<noteq> None \<and>
                mset (columns (the (X i))) \<noteq> mset (columns (the (X j)))
      then Inl [ColumnMismatch]
      else Inr \<lparr>results = v\<rparr>)"
  unfolding CvResults_init_def validate_results_cases
  by (simp only: if_distrib [of "case_sum Inl (\<lambda>v'. Inr \<lparr>results = v'\<rparr>)"] sum.case)

theorem CvResults_init_cases_witness:
  "CvResults_init [framed_fold [''a'', ''b''], framed_fold [''b'', ''a'']] =
     Inr \<lparr>results = [framed_fold [''a'', ''b''], framed_fold [''b'', ''a'']]\<rparr> \<and>
   CvResults_init [framed_fold [''a'', ''b''], framed_fold [''a'', ''b'', ''c'']] =
     Inl [ColumnMismatch] \<and>
   CvResults_init [pair_fold, pair_fold_sd] = Inl [FieldPresenceMismatch ''standard_deviation''] \<and>
   CvResults_init [single_fold] = Inl [EmptyCollection]"
proof -
  have 1: "CvResults_init [framed_fold [''a'', ''b''], framed_fold [''b'', ''a'']] =
     Inr \<lparr>results = [framed_fold [''a'', ''b''], framed_fold [''b'', ''a'']]\<rparr>"
    using CvResults_init_cases [of "[framed_fold [''a'', ''b''], framed_fold [''b'', ''a'']]"]
    by (simp add: framed_fold_fields columns_row_frame sort_eq_iff_mset [symmetric])
  have 2: "CvResults_init [framed_fold [''a'', ''b''], framed_fold [''a'', ''b'', ''c'']] =
     Inl [ColumnMismatch]"
    using CvResults_init_cases [of "[framed_fold [''a'', ''b''], framed_fold [''a'', ''b'', ''c'']]"]
    by (simp add: framed_fold_fields columns_row_frame sort_eq_iff_mset [symmetric])
  have 3: "CvResults_init [pair_fold, pair_fold_sd] =
     Inl [FieldPresenceMismatch ''standard_deviation'']"
    using CvResults_init_cases [of "[pair_fold, pair_fold_sd]"]
    by (simp add: pair_fold_sd_def pair_fold_def fold_of_def)
  have 4: "CvResults_init [single_fold] = Inl [EmptyCollection]"
    using CvResults_init_cases [of "[single_fold]"] by simp
  from 1 2 3 4 show ?thesis by simp
qed

text \<open>
  The claim C5 as it is written fails where a column name repeats: these two folds of one
  key have an \<open>X\<close> each and no other optional field, the sets of their column names are
  equal, and the construction fails with \<open>ColumnMismatch\<close>.
\<close>

theorem CvResults_init_repeated_columns_counterexample:
  "CvResult_init (framed_fold [''a'', ''a'', ''b'']) = Inr (framed_fold [''a'', ''a'', ''b'']) \<and>
   CvResult_init (framed_fold [''a'', ''b'', ''b'']) = Inr (framed_fold [''a'', ''b'', ''b'']) \<and>
   key (framed_fold [''a'', ''a'', ''b'']) = key (framed_fold [''a'', ''b'', ''b'']) \<and>
   set (columns (the (X (framed_fold [''a'', ''a'', ''b''])))) =
     set (columns (the (X (framed_fold [''a'', ''b'', ''b''])))) \<and>
   CvResults_init [framed_fold [''a'', ''a'', ''b''], framed_fold [''a'', ''b'', ''b'']] =
     Inl [ColumnMismatch]"
proof -
  have "set (columns (the (X (framed_fold [''a'', ''a'', ''b''])))) =
     set (columns (the (X (framed_fold [''a'', ''b'', ''b'']))))"
    by (auto simp: framed_fold_fields columns_row_frame)
  moreover have "CvResults_init [framed_fold [''a'', ''a'', ''b''], framed_fold [''a'', ''b'', ''b'']] =
     Inl [ColumnMismatch]"
    by (simp add: CvResults_init_def validate_results_def framed_fold_fields columns_row_frame)
  ultimately show ?thesis
    by (simp add: framed_fold_ok framed_fold_fields)
qed

subsection \<open>Concatenation\<close>

lemma present_map:
  "\<forall>x \<in> set xs. f x \<noteq> None \<Longrightarrow>
     map the (filter (\<lambda>obj. obj \<noteq> None) (map f xs)) = map (\<lambda>x. the (f x)) xs"
  by (induction xs) simp_all

lemma pd_concat_series_present:
  assumes "xs \<noteq> []" and "\<forall>x \<in> set xs. f x \<noteq> None"
  shows "pd_concat_series (map f xs) =
           Inr (make_series (concat (map (\<lambda>x. series_values (the (f x))) xs)))"
  using assms by (simp add: pd_concat_series_def present_map comp_def)

lemma pd_concat_series_Inl:
  "pd_concat_series objs = Inl es \<Longrightarrow> es = [PandasError ''No objects to concatenate'']"
  by (auto simp: pd_concat_series_def Let_def split: if_splits)

lemma pd_concat_series_Inr:
  "pd_concat_series objs = Inr s \<Longrightarrow>
     s = make_series (concat (map series_values (map the (filter (\<lambda>obj. obj \<noteq> None) objs))))"
  by (auto simp: pd_concat_series_def Let_def split: if_splits)

lemma pd_concat_frames_Inl:
  "pd_concat_frames objs = Inl es \<Longrightarrow> \<exists>m. es = [PandasError m]"
  by (auto simp: pd_concat_frames_def Let_def split: if_splits)

lemma length_concat_series_values:
  "length (concat (map (\<lambda>x. series_values (g x)) xs)) = sum_list (map (\<lambda>x. length (g x)) xs)"
  by (induction xs) (simp_all add: length_series_values)

lemma is_numeric_concat:
  "\<forall>x \<in> set xs. is_numeric (g x) \<Longrightarrow>
     is_numeric (make_series (concat (map (\<lambda>x. series_values (g x)) xs)))"
  by (induction xs) (auto simp: is_numeric_def series_values_make_series)

lemma union_labels_absorb:
  "\<forall>l \<in> set ls. set l \<subseteq> set acc \<Longrightarrow>
     foldl (\<lambda>acc l. acc @ filter (\<lambda>c. c \<notin> set acc) l) acc ls = acc"
proof (induction ls)
  case Nil
  then show ?case by simp
next
  case (Cons l ls)
  then have "filter (\<lambda>c. c \<notin> set acc) l = []"
    by (auto simp: filter_empty_conv)
  with Cons show ?case by simp
qed

lemma union_labels_same:
  assumes "ls \<noteq> []" and "\<forall>l \<in> set ls. set l = set (hd ls)"
  shows "union_labels ls = hd ls"
proof -
  obtain l0 rest where ls: "ls = l0 # rest"
    using assms(1) by (cases ls) auto
  have "\<forall>l \<in> set rest. set l \<subseteq> set l0"
    using assms(2) ls by auto
  then show ?thesis
    by (simp add: union_labels_def ls union_labels_absorb)
qed

lemma nth_column:
  assumes "distinct (columns df)" and "j < length (columns df)"
  shows "column_of df (columns df ! j) = snd (frame_columns df ! j)"
proof -
  have d: "distinct (map fst (frame_columns df))"
    using assms(1) by (simp add: columns_def)
  have j: "j < length (frame_columns df)"
    using assms(2) by (simp add: columns_def)
  then have "frame_columns df ! j \<in> set (frame_columns df)" by simp
  then have "(fst (frame_columns df ! j), snd (frame_columns df ! j)) \<in> set (frame_columns df)"
    by simp
  then have "map_of (frame_columns df) (fst (frame_columns df ! j)) = Some (snd (frame_columns df ! j))"
    using d by (rule map_of_is_SomeI [rotated])
  then show ?thesis
    using j by (simp add: column_of_def columns_def)
qed

lemma pd_concat_frames_identical:
  assumes "dfs \<noteq> []" and "\<forall>df \<in> set dfs. columns df = columns (hd dfs)"
  shows "pd_concat_frames (map Some dfs) =
           Inr \<lparr>frame_index = range_index (sum_list (map frame_len dfs)),
                frame_columns =
                  map (\<lambda>j. (columns (hd dfs) ! j, concat (map (\<lambda>df. snd (frame_columns df ! j)) dfs)))
                    [0..<length (columns (hd dfs))]\<rparr>"
proof -
  have p: "map the (filter (\<lambda>obj. obj \<noteq> None) (map Some dfs)) = dfs"
    using present_map [of dfs Some] by simp
  have a: "list_all (\<lambda>df. columns df = columns (hd dfs)) dfs"
    unfolding list_all_iff by (rule assms(2))
  show ?thesis
    unfolding pd_concat_frames_def p Let_def using assms(1) a by simp
qed

lemma pd_concat_frames_distinct:
  assumes "dfs \<noteq> []" and "\<not> (\<forall>df \<in> set dfs. columns df = columns (hd dfs))"
    and "\<forall>df \<in> set dfs. distinct (columns df)"
  shows "pd_concat_frames (map Some dfs) =
           Inr \<lparr>frame_index = range_index (sum_list (map frame_len dfs)),
                frame_columns =
                  map (\<lambda>c. (c, concat (map (\<lambda>df. column_of df c) dfs)))
                    (union_labels (map columns dfs))\<rparr>"
proof -
  have p: "map the (filter (\<lambda>obj. obj \<noteq> None) (map Some dfs)) = dfs"
    using present_map [of dfs Some] by simp
  have a: "\<not> list_all (\<lambda>df. columns df = columns (hd dfs)) dfs"
    unfolding list_all_iff by (rule assms(2))
  have b: "list_all (\<lambda>df. distinct (columns df)) dfs"
    unfolding list_all_iff by (rule assms(3))
  show ?thesis
    unfolding pd_concat_frames_def p Let_def using assms(1) a b by simp
qed

lemma column_of_labelled:
  assumes "c \<in> set labels"
  shows "column_of \<lparr>frame_index = ix, frame_columns = map (\<lambda>c. (c, h c)) labels\<rparr> c = h c"
proof -
  have "map_of (map (\<lambda>c. (c, h c)) labels) c = Some (h c)"
    using assms by (induction labels) auto
  then show ?thesis by (simp add: column_of_def)
qed

lemma columns_positional:
  "columns \<lparr>frame_index = ix, frame_columns = map (\<lambda>j. (labels ! j, g j)) [0..<length labels]\<rparr>
     = labels"
  by (simp add: columns_def comp_def map_nth)

lemma columns_labelled:
  "columns \<lparr>frame_index = ix, frame_columns = map (\<lambda>c. (c, h c)) labels\<rparr> = labels"
  by (simp add: columns_def comp_def)

lemma column_of_positional:
  assumes "distinct labels" and "j < length labels"
  shows "column_of \<lparr>frame_index = ix,
           frame_columns = map (\<lambda>j. (labels ! j, g j)) [0..<length labels]\<rparr> (labels ! j) = g j"
proof -
  define df where "df = \<lparr>frame_index = ix,
    frame_columns = map (\<lambda>j. (labels ! j, g j)) [0..<length labels]\<rparr>"
  have c: "columns df = labels"
    unfolding df_def by (rule columns_positional)
  have "column_of df (columns df ! j) = snd (frame_columns df ! j)"
    by (rule nth_column) (simp_all add: c assms)
  moreover have "snd (frame_columns df ! j) = g j"
    using assms(2) by (simp add: df_def)
  ultimately show ?thesis
    unfolding c unfolding df_def by simp
qed

text \<open>
  The concatenation of tables that pass the column test of a collection and whose labels
  are unique: its labels are those of the first table, and the column of each label is
  the concatenation of the tables' columns of that label.
\<close>

lemma pd_concat_frames_aligned:
  assumes ne: "dfs \<noteq> []"
    and same: "\<forall>df \<in> set dfs. mset (columns df) = mset (columns (hd dfs))"
    and dist: "\<forall>df \<in> set dfs. distinct (columns df)"
  shows "\<exists>x. pd_concat_frames (map Some dfs) = Inr x \<and>
           frame_index x = range_index (sum_list (map frame_len dfs)) \<and>
           columns x = columns (hd dfs) \<and>
           (\<forall>c \<in> set (columns (hd dfs)).
              column_of x c = concat (map (\<lambda>df. column_of df c) dfs))"
proof (cases "\<forall>df \<in> set dfs. columns df = columns (hd dfs)")
  case True
  define first where "first = columns (hd dfs)"
  define g where "g = (\<lambda>j. concat (map (\<lambda>df. snd (frame_columns df ! j)) dfs))"
  define x where "x = \<lparr>frame_index = range_index (sum_list (map frame_len dfs)),
             frame_columns = map (\<lambda>j. (first ! j, g j)) [0..<length first]\<rparr>"
  have r: "pd_concat_frames (map Some dfs) = Inr x"
    unfolding x_def g_def first_def using ne True by (rule pd_concat_frames_identical)
  have d: "distinct first"
    using ne dist by (simp add: first_def)
  have cols: "columns x = first"
    unfolding x_def by (rule columns_positional)
  have ix: "frame_index x = range_index (sum_list (map frame_len dfs))"
    by (simp add: x_def)
  have col: "column_of x c = concat (map (\<lambda>df. column_of df c) dfs)" if c: "c \<in> set first" for c
  proof -
    obtain j where j: "j < length first" "c = first ! j"
      using c by (auto simp: in_set_conv_nth)
    have "column_of x (first ! j) = g j"
      unfolding x_def using d j(1) by (rule column_of_positional)
    moreover have "snd (frame_columns df ! j) = column_of df (first ! j)" if "df \<in> set dfs" for df
    proof -
      have e: "columns df = first" using True that by (simp add: first_def)
      have "distinct (columns df)" using dist that by simp
      moreover have "j < length (columns df)" using j(1) e by simp
      ultimately have "column_of df (columns df ! j) = snd (frame_columns df ! j)"
        by (rule nth_column)
      then show ?thesis by (simp add: e)
    qed
    then have "g j = concat (map (\<lambda>df. column_of df (first ! j)) dfs)"
      unfolding g_def by (simp cong: map_cong)
    ultimately show ?thesis by (simp add: j(2))
  qed
  show ?thesis
  proof (intro exI conjI ballI)
    show "pd_concat_frames (map Some dfs) = Inr x" by (rule r)
    show "frame_index x = range_index (sum_list (map frame_len dfs))" by (rule ix)
    show "columns x = columns (hd dfs)" using cols by (simp add: first_def)
    show "column_of x c = concat (map (\<lambda>df. column_of df c) dfs)"
      if "c \<in> set (columns (hd dfs))" for c
      using that col by (simp add: first_def)
  qed
next
  case False
  define first where "first = columns (hd dfs)"
  define h where "h = (\<lambda>c. concat (map (\<lambda>df. column_of df c) dfs))"
  define x where "x = \<lparr>frame_index = range_index (sum_list (map frame_len dfs)),
             frame_columns = map (\<lambda>c. (c, h c)) first\<rparr>"
  have hdm: "hd (map columns dfs) = first"
    using ne by (simp add: first_def hd_map)
  have sets: "\<forall>l \<in> set (map columns dfs). set l = set (hd (map columns dfs))"
  proof
    fix l assume "l \<in> set (map columns dfs)"
    then obtain df where df: "df \<in> set dfs" "l = columns df" by auto
    then have "mset l = mset first" using same by (simp add: first_def)
    then have "set l = set first" by (rule mset_eq_setD)
    then show "set l = set (hd (map columns dfs))" by (simp add: hdm)
  qed
  have "map columns dfs \<noteq> []" using ne by simp
  then have u: "union_labels (map columns dfs) = first"
    using sets hdm union_labels_same [of "map columns dfs"] by simp
  have r: "pd_concat_frames (map Some dfs) = Inr x"
    using pd_concat_frames_distinct [OF ne False dist] unfolding u x_def h_def by simp
  have cols: "columns x = first"
    unfolding x_def by (rule columns_labelled)
  have ix: "frame_index x = range_index (sum_list (map frame_len dfs))"
    by (simp add: x_def)
  have col: "column_of x c = h c" if "c \<in> set first" for c
    unfolding x_def using that by (rule column_of_labelled)
  show ?thesis
  proof (intro exI conjI ballI)
    show "pd_concat_frames (map Some dfs) = Inr x" by (rule r)
    show "frame_index x = range_index (sum_list (map frame_len dfs))" by (rule ix)
    show "columns x = columns (hd dfs)" using cols by (simp add: first_def)
    show "column_of x c = concat (map (\<lambda>df. column_of df c) dfs)"
      if "c \<in> set (columns (hd dfs))" for c
      using that col by (simp add: first_def h_def)
  qed
qed

subsection \<open>Combining the folds\<close>

lemma if_Inl_eq_Inr: "(if b then Inl e else r) = Inr x \<longleftrightarrow> \<not> b \<and> r = Inr x"
  by simp

text \<open>What the construction of a collection guarantees of its folds.\<close>

lemma validate_results_Inr:
  assumes "validate_results rs = Inr rs'"
  shows "rs' = rs" and "\<not> length rs < 2"
    and "\<not> (\<exists>i \<in> set rs. key i \<noteq> key (hd rs))"
    and "\<not> ((\<exists>i \<in> set rs. standard_deviation i \<noteq> None) \<and>
              (\<exists>i \<in> set rs. standard_deviation i = None))"
    and "\<not> ((\<exists>i \<in> set rs. labcodes i \<noteq> None) \<and> (\<exists>i \<in> set rs. labcodes i = None))"
    and "\<not> ((\<exists>i \<in> set rs. X i \<noteq> None) \<and> (\<exists>i \<in> set rs. X i = None))"
    and "\<not> (\<exists>i \<in> set rs. \<exists>j \<in> set rs. X i \<noteq> None \<and> X j \<noteq> None \<and>
                mset (columns (the (X i))) \<noteq> mset (columns (the (X j))))"
proof -
  have all: "\<not> length rs < 2 \<and>
    \<not> (\<exists>i \<in> set rs. key i \<noteq> key (hd rs)) \<and>
    \<not> ((\<exists>i \<in> set rs. standard_deviation i \<noteq> None) \<and>
              (\<exists>i \<in> set rs. standard_deviation i = None)) \<and>
    \<not> ((\<exists>i \<in> set rs. labcodes i \<noteq> None) \<and> (\<exists>i \<in> set rs. labcodes i = None)) \<and>
    \<not> ((\<exists>i \<in> set rs. X i \<noteq> None) \<and> (\<exists>i \<in> set rs. X i = None)) \<and>
    \<not> (\<exists>i \<in> set rs. \<exists>j \<in> set rs. X i \<noteq> None \<and> X j \<noteq> None \<and>
                mset (columns (the (X i))) \<noteq> mset (columns (the (X j)))) \<and>
    Inr rs = (Inr rs' :: cvresult list result)"
    using assms unfolding validate_results_cases if_Inl_eq_Inr .
  from all show "rs' = rs" by (elim conjE) simp
  from all show "\<not> length rs < 2" by (elim conjE)
  from all show "\<not> (\<exists>i \<in> set rs. key i \<noteq> key (hd rs))" by (elim conjE)
  from all show "\<not> ((\<exists>i \<in> set rs. standard_deviation i \<noteq> None) \<and>
              (\<exists>i \<in> set rs. standard_deviation i = None))" by (elim conjE)
  from all show "\<not> ((\<exists>i \<in> set rs. labcodes i \<noteq> None) \<and> (\<exists>i \<in> set rs. labcodes i = None))"
    by (elim conjE)
  from all show "\<not> ((\<exists>i \<in> set rs. X i \<noteq> None) \<and> (\<exists>i \<in> set rs. X i = None))"
    by (elim conjE)
  from all show "\<not> (\<exists>i \<in> set rs. \<exists>j \<in> set rs. X i \<noteq> None \<and> X j \<noteq> None \<and>
                mset (columns (the (X i))) \<noteq> mset (columns (the (X j))))" by (elim conjE)
qed

lemma all_present:
  fixes f :: "'a \<Rightarrow> 'b option"
  assumes "\<not> ((\<exists>i \<in> set rs. f i \<noteq> None) \<and> (\<exists>i \<in> set rs. f i = None))"
    and "x \<in> set rs" and "f x \<noteq> None"
  shows "\<forall>cv \<in> set rs. f cv \<noteq> None"
proof (intro ballI notI)
  fix cv
  assume "cv \<in> set rs" and "f cv = None"
  then have "\<exists>i \<in> set rs. f i = None" by (rule bexI [rotated])
  moreover have "\<exists>i \<in> set rs. f i \<noteq> None" using assms(3,2) by (rule bexI)
  ultimately show False using assms(1) by (simp only: simp_thms)
qed

lemma CvResults_init_Inr:
  assumes "CvResults_init rs = Inr c"
  shows "results c = rs" and "2 \<le> length rs" and "hd rs \<in> set rs"
    and "\<forall>cv \<in> set rs. key cv = key (hd rs)"
    and "standard_deviation (hd rs) \<noteq> None \<Longrightarrow> \<forall>cv \<in> set rs. standard_deviation cv \<noteq> None"
    and "labcodes (hd rs) \<noteq> None \<Longrightarrow> \<forall>cv \<in> set rs. labcodes cv \<noteq> None"
    and "X (hd rs) \<noteq> None \<Longrightarrow> \<forall>cv \<in> set rs. X cv \<noteq> None"
    and "X (hd rs) \<noteq> None \<Longrightarrow>
           \<forall>cv \<in> set rs. mset (columns (the (X cv))) = mset (columns (the (X (hd rs))))"
proof -
  obtain rs' where v: "validate_results rs = Inr rs'" and c: "c = \<lparr>results = rs'\<rparr>"
    using assms by (cases "validate_results rs") (simp_all add: CvResults_init_def)
  note f = validate_results_Inr [OF v]
  show "results c = rs" using c f(1) by simp
  show "2 \<le> length rs" using f(2) by simp
  have "rs \<noteq> []" using f(2) by (cases rs) simp_all
  then show hd: "hd rs \<in> set rs" by (rule hd_in_set)
  show "\<forall>cv \<in> set rs. key cv = key (hd rs)"
  proof
    fix cv assume cv: "cv \<in> set rs"
    show "key cv = key (hd rs)"
    proof (rule ccontr)
      assume "key cv \<noteq> key (hd rs)"
      with cv have "\<exists>i \<in> set rs. key i \<noteq> key (hd rs)" by (rule bexI [rotated])
      with f(3) show False by (rule notE)
    qed
  qed
  show "\<forall>cv \<in> set rs. standard_deviation cv \<noteq> None" if "standard_deviation (hd rs) \<noteq> None"
    using f(4) hd that by (rule all_present)
  show "\<forall>cv \<in> set rs. labcodes cv \<noteq> None" if "labcodes (hd rs) \<noteq> None"
    using f(5) hd that by (rule all_present)
  show x: "\<forall>cv \<in> set rs. X cv \<noteq> None" if "X (hd rs) \<noteq> None"
    using f(6) hd that by (rule all_present)
  show "\<forall>cv \<in> set rs. mset (columns (the (X cv))) = mset (columns (the (X (hd rs))))"
    if h: "X (hd rs) \<noteq> None"
  proof
    fix cv
    assume cv: "cv \<in> set rs"
    show "mset (columns (the (X cv))) = mset (columns (the (X (hd rs))))"
    proof (rule ccontr)
    assume ne: "mset (columns (the (X cv))) \<noteq> mset (columns (the (X (hd rs))))"
    have p: "X cv \<noteq> None" using x [OF h] cv by (rule bspec)
    have "X cv \<noteq> None \<and> X (hd rs) \<noteq> None \<and>
        mset (columns (the (X cv))) \<noteq> mset (columns (the (X (hd rs))))"
      using p h ne by (intro conjI)
    then have "\<exists>j \<in> set rs. X cv \<noteq> None \<and> X j \<noteq> None \<and>
        mset (columns (the (X cv))) \<noteq> mset (columns (the (X j)))"
      using hd by (rule bexI)
    then have "\<exists>i \<in> set rs. \<exists>j \<in> set rs. X i \<noteq> None \<and> X j \<noteq> None \<and>
        mset (columns (the (X i))) \<noteq> mset (columns (the (X j)))"
      using cv by (rule bexI)
    with f(7) show False by (rule notE)
    qed
  qed
qed

lemma validate_shapes_Inl_form:
  "validate_shapes vals = Inl es \<Longrightarrow> \<exists>a n b k. es = [ShapeMismatch a n b k]"
  by (auto simp: validate_shapes_def split: if_splits)

lemma field_errors_not_guard:
  "InsufficientSamples \<notin> set (errors_of (validate_observed v))"
  "InsufficientSamples \<notin> set (errors_of (validate_predicted v))"
  "InsufficientSamples \<notin> set (errors_of (validate_standard_deviation w))"
  by (simp_all add: validate_observed_def validate_predicted_def validate_standard_deviation_def
      errors_of_def)

lemma CvResult_init_Inl_not_guard:
  assumes "CvResult_init vals = Inl es"
  shows "InsufficientSamples \<notin> set es"
proof (cases "validate_shapes vals")
  case (Inl a)
  then have "es = a" using assms by (simp add: CvResult_init_def)
  moreover obtain a' n b k where "a = [ShapeMismatch a' n b k]"
    using validate_shapes_Inl_form [OF Inl] by blast
  ultimately show ?thesis by simp
next
  case (Inr vs)
  then have "es = errors_of (validate_observed (observed vs))
                  @ errors_of (validate_predicted (predicted vs))
                  @ errors_of (validate_standard_deviation (standard_deviation vs))"
    using assms by (simp add: CvResult_init_def Let_def split: if_splits)
  then show ?thesis
    by (simp add: field_errors_not_guard)
qed

text \<open>
  The shape of \<open>_combine_folds\<close>: a concatenation fails inside pandas, or the constructor is
  called on the concatenated fields.
\<close>

lemma combine_folds_cases:
  obtains (fail) msg where "combine_folds c = Inl [PandasError msg]"
  | (built) vals where "combine_folds c = CvResult_init vals"
      and "key vals = key (hd (results c))"
      and "pd_concat_series (map (\<lambda>cv. Some (observed cv)) (results c)) = Inr (observed vals)"
      and "pd_concat_series (map (\<lambda>cv. Some (predicted cv)) (results c)) = Inr (predicted vals)"
      and "standard_deviation (hd (results c)) = None \<Longrightarrow> standard_deviation vals = None"
      and "standard_deviation (hd (results c)) \<noteq> None \<Longrightarrow>
             \<exists>s. pd_concat_series (map standard_deviation (results c)) = Inr s \<and>
                 standard_deviation vals = Some s"
      and "labcodes (hd (results c)) = None \<Longrightarrow> labcodes vals = None"
      and "labcodes (hd (results c)) \<noteq> None \<Longrightarrow>
             \<exists>s. pd_concat_series (map labcodes (results c)) = Inr s \<and> labcodes vals = Some s"
      and "X (hd (results c)) = None \<Longrightarrow> X vals = None"
      and "X (hd (results c)) \<noteq> None \<Longrightarrow>
             \<exists>x. pd_concat_frames (map X (results c)) = Inr x \<and> X vals = Some x"
proof -
  define s1 where "s1 = pd_concat_series (map (\<lambda>cv. Some (observed cv)) (results c))"
  define s2 where "s2 = pd_concat_series (map (\<lambda>cv. Some (predicted cv)) (results c))"
  define s3 where "s3 = (if standard_deviation (hd (results c)) \<noteq> None
            then map_sum id Some (pd_concat_series (map standard_deviation (results c)))
            else Inr None)"
  define s4 where "s4 = (if labcodes (hd (results c)) \<noteq> None
            then map_sum id Some (pd_concat_series (map labcodes (results c)))
            else Inr None)"
  define s5 where "s5 = (if X (hd (results c)) \<noteq> None
            then map_sum id Some (pd_concat_frames (map X (results c)))
            else Inr None)"
  have cf: "combine_folds c =
     (case s1 of Inl es \<Rightarrow> Inl es | Inr obs \<Rightarrow>
     (case s2 of Inl es \<Rightarrow> Inl es | Inr pred \<Rightarrow>
     (case s3 of Inl es \<Rightarrow> Inl es | Inr sd \<Rightarrow>
     (case s4 of Inl es \<Rightarrow> Inl es | Inr labs \<Rightarrow>
     (case s5 of Inl es \<Rightarrow> Inl es | Inr x \<Rightarrow>
          CvResult_init \<lparr>key = key (hd (results c)), observed = obs, predicted = pred,
            standard_deviation = sd, labcodes = labs, X = x\<rparr>)))))"
    unfolding combine_folds_def s1_def s2_def s3_def s4_def s5_def ..
  have f1: "\<exists>m. es = [PandasError m]" if "s1 = Inl es" for es
    using that pd_concat_series_Inl [of _ es] unfolding s1_def by blast
  have f2: "\<exists>m. es = [PandasError m]" if "s2 = Inl es" for es
    using that pd_concat_series_Inl [of _ es] unfolding s2_def by blast
  have f3: "\<exists>m. es = [PandasError m]" if "s3 = Inl es" for es
  proof (cases "standard_deviation (hd (results c)) \<noteq> None")
    case True
    then have "pd_concat_series (map standard_deviation (results c)) = Inl es"
      using that unfolding s3_def
      by (cases "pd_concat_series (map standard_deviation (results c))") simp_all
    then show ?thesis using pd_concat_series_Inl by blast
  next
    case False
    then show ?thesis using that unfolding s3_def by simp
  qed
  have f4: "\<exists>m. es = [PandasError m]" if "s4 = Inl es" for es
  proof (cases "labcodes (hd (results c)) \<noteq> None")
    case True
    then have "pd_concat_series (map labcodes (results c)) = Inl es"
      using that unfolding s4_def
      by (cases "pd_concat_series (map labcodes (results c))") simp_all
    then show ?thesis using pd_concat_series_Inl by blast
  next
    case False
    then show ?thesis using that unfolding s4_def by simp
  qed
  have f5: "\<exists>m. es = [PandasError m]" if "s5 = Inl es" for es
  proof (cases "X (hd (results c)) \<noteq> None")
    case True
    then have "pd_concat_frames (map X (results c)) = Inl es"
      using that unfolding s5_def
      by (cases "pd_concat_frames (map X (results c))") simp_all
    then show ?thesis by (rule pd_concat_frames_Inl)
  next
    case False
    then show ?thesis using that unfolding s5_def by simp
  qed
  show thesis
  proof (cases s1)
    case (Inl es)
    with f1 cf fail show ?thesis by auto
  next
    case o: (Inr obs)
    show ?thesis
    proof (cases s2)
      case (Inl es)
      with f2 cf o fail show ?thesis by auto
    next
      case p: (Inr pred)
      show ?thesis
      proof (cases s3)
        case (Inl es)
        with f3 cf o p fail show ?thesis by auto
      next
        case d: (Inr sd)
        show ?thesis
        proof (cases s4)
          case (Inl es)
          with f4 cf o p d fail show ?thesis by auto
        next
          case l: (Inr labs)
          show ?thesis
          proof (cases s5)
            case (Inl es)
            with f5 cf o p d l fail show ?thesis by auto
          next
            case x: (Inr x)
            define vals where "vals = \<lparr>key = key (hd (results c)), observed = obs,
              predicted = pred, standard_deviation = sd, labcodes = labs, X = x\<rparr>"
            have "combine_folds c = CvResult_init vals"
              unfolding cf vals_def by (simp add: o p d l x)
            moreover have "key vals = key (hd (results c))" by (simp add: vals_def)
            moreover have "pd_concat_series (map (\<lambda>cv. Some (observed cv)) (results c))
                = Inr (observed vals)"
              using o by (simp add: vals_def s1_def)
            moreover have "pd_concat_series (map (\<lambda>cv. Some (predicted cv)) (results c))
                = Inr (predicted vals)"
              using p by (simp add: vals_def s2_def)
            moreover have "standard_deviation vals = None"
              if "standard_deviation (hd (results c)) = None"
              using d that by (simp add: vals_def s3_def)
            moreover have "\<exists>s. pd_concat_series (map standard_deviation (results c)) = Inr s \<and>
                 standard_deviation vals = Some s"
              if "standard_deviation (hd (results c)) \<noteq> None"
              using d that unfolding s3_def vals_def
              by (cases "pd_concat_series (map standard_deviation (results c))") auto
            moreover have "labcodes vals = None" if "labcodes (hd (results c)) = None"
              using l that by (simp add: vals_def s4_def)
            moreover have "\<exists>s. pd_concat_series (map labcodes (results c)) = Inr s \<and>
                 labcodes vals = Some s"
              if "labcodes (hd (results c)) \<noteq> None"
              using l that unfolding s4_def vals_def
              by (cases "pd_concat_series (map labcodes (results c))") auto
            moreover have "X vals = None" if "X (hd (results c)) = None"
              using x that by (simp add: vals_def s5_def)
            moreover have "\<exists>x. pd_concat_frames (map X (results c)) = Inr x \<and> X vals = Some x"
              if "X (hd (results c)) \<noteq> None"
              using x that unfolding s5_def vals_def
              by (cases "pd_concat_frames (map X (results c))") auto
            ultimately show ?thesis by (rule built)
          qed
        qed
      qed
    qed
  qed
qed

end
